theory Spec2Isabelle
  imports Complex_Main "HOL-Library.AList"
begin

section \<open>The pairing backend (backend/src/app.js)\<close>

subsection \<open>Data\<close>

text \<open>
  The three strings the code ever stores in a record's \<open>status\<close> field:
  \<open>'connecting'\<close>, \<open>'connected'\<close> and \<open>'failed'\<close>.
\<close>

datatype status = Connecting | Connected | Failed

text \<open>
  One entry of \<open>activeConnections\<close>: \<open>{ sock, phoneNumber, status, createdAt }\<close> with
  the optional property \<open>qr\<close>. A socket object is known by its identity, a number;
  \<open>createdAt\<close> is a Date, in milliseconds.
\<close>

record connection =
  sock :: nat
  phoneNumber :: string
  status :: status
  createdAt :: int
  qr :: "string option"

text \<open>
  The state the handlers share.
  \<^item> \<open>activeConnections\<close>: the own properties of the object of line 36, keys in
    insertion order;
  \<^item> \<open>dirs\<close>: the directories under \<open>SESSIONS_DIR\<close>, by name, each a map from file
    names to contents;
  \<^item> \<open>listeners\<close>: the sockets that carry the \<open>connection.update\<close> listener of line 75,
    each with the \<open>sessionId\<close> its closure captured;
  \<^item> \<open>savers\<close>: the sockets through which the provider persists (the auth state of
    line 56, \<open>saveCreds\<close> of line 98), each with the name of the directory it is bound to;
  \<^item> \<open>next_sock\<close>: the identity of the next socket object;
  \<^item> \<open>timers\<close>: the pending \<open>setTimeout\<close> callbacks of line 176, oldest first, each
    with the \<open>sessionId\<close> it will clean up.
\<close>

record state =
  activeConnections :: "(string \<times> connection) list"
  dirs :: "string \<rightharpoonup> (string \<rightharpoonup> string)"
  listeners :: "nat \<rightharpoonup> string"
  savers :: "nat \<rightharpoonup> string"
  next_sock :: nat
  timers :: "string list"

datatype error = TypeError | FsError | AdapterError

text \<open>
  An HTTP answer: the status code and what is sent. \<open>NoStatusBody\<close> is the JSON
  \<open>{"qr":null}\<close>, in which an undefined \<open>status\<close> is left out; \<open>Uncaught\<close> is what the
  framework answers when an exception leaves a route handler.
\<close>

datatype body =
    ErrorBody string
  | PairBody string string
  | StatusBody status "string option"
  | NoStatusBody
  | QrBody string
  | FileBody string
  | Uncaught error

type_synonym response = "nat \<times> body"

text \<open>JavaScript truthiness of a value that is \<open>undefined\<close> or a string.\<close>

definition truthy :: "string option \<Rightarrow> bool" where
  "truthy v = (case v of None \<Rightarrow> False | Some s \<Rightarrow> s \<noteq> [])"

text \<open>\<open>connection.qr || null\<close>\<close>

definition or_null :: "string option \<Rightarrow> string option" where
  "or_null v = (if truthy v then v else None)"

subsection \<open>Reading the Registry\<close>

text \<open>
  \<open>activeConnections\<close> is a plain object (\<open>{}\<close>, line 36), and the routes read
  \<open>activeConnections[sessionId]\<close> with the \<open>sessionId\<close> of the request. A key that is
  not an own property is looked up in \<open>Object.prototype\<close>, whose properties have these
  names.
\<close>

definition proto_keys :: "string list" where
  "proto_keys =
     [''__proto__'', ''constructor'', ''hasOwnProperty'', ''isPrototypeOf'',
      ''propertyIsEnumerable'', ''toLocaleString'', ''toString'', ''valueOf'',
      ''__defineGetter__'', ''__defineSetter__'', ''__lookupGetter__'',
      ''__lookupSetter__'']"

text \<open>
  What the read gives: \<open>undefined\<close>, an inherited value (a function, or
  \<open>Object.prototype\<close> itself: truthy, and without the properties \<open>sock\<close>, \<open>status\<close>,
  \<open>qr\<close> and \<open>createdAt\<close>), or a record.
\<close>

datatype entry = Absent | Inherited | Own connection

definition lookup :: "state \<Rightarrow> string \<Rightarrow> entry" where
  "lookup st sessionId =
     (case map_of (activeConnections st) sessionId of
        Some c \<Rightarrow> Own c
      | None \<Rightarrow> if sessionId \<in> set proto_keys then Inherited else Absent)"

subsection \<open>The handshake provider\<close>

text \<open>
  What one call of the creation handler meets outside the program: the identifier
  \<open>uuidv4()\<close> returns, the clock, whether \<open>fs.mkdirSync\<close>, \<open>useMultiFileAuthState\<close>,
  \<open>fetchLatestBaileysVersion\<close> and \<open>makeWASocket\<close> return or throw, the files (name
  and content, in order) that the provider persists while the pairing code is awaited,
  and what \<open>sock.requestPairingCode\<close> answers for a string of digits (\<open>None\<close>: it
  throws). \<open>uuidv4()\<close> returns 36 characters, hexadecimal digits and hyphens; no name of
  \<open>proto_keys\<close> is among its results.
\<close>

record create_env =
  env_uuid :: string
  env_now :: int
  env_mkdir_ok :: bool
  env_auth_ok :: bool
  env_version_ok :: bool
  env_socket_ok :: bool
  env_persisted :: "(string \<times> string) list"
  env_pairing :: "string \<Rightarrow> string option"

text \<open>
  A \<open>connection.update\<close> event: \<open>connection\<close>, \<open>qr\<close> and the value of
  \<open>lastDisconnect?.error?.output?.statusCode\<close>, each possibly undefined.
\<close>

record update =
  upd_connection :: "string option"
  upd_statusCode :: "int option"
  upd_qr :: "string option"

text \<open>\<open>DisconnectReason.loggedOut\<close> of the provider library.\<close>

definition loggedOut :: int where
  "loggedOut = 401"

text \<open>
  Modelled from the spec: \<open>sock.end()\<close> belongs to the external handshake provider and
  is not in the source. The spec's \<open>stop\<close>: it "terminates the handshake and unregisters
  its event listeners; idempotent; safe to call on an already-closed handle".
\<close>

definition sock_end :: "state \<Rightarrow> nat \<Rightarrow> state" where
  "sock_end st sk =
     st\<lparr>listeners := (listeners st)(sk := None), savers := (savers st)(sk := None)\<rparr>"

text \<open>
  Modelled from the spec: the provider's persistence (\<open>saveCreds\<close> and the key store of
  the auth state) is not in the source. The spec: the directory's "content is owned by the
  Handshake Provider Adapter" and holds "whatever files the external handshake provider
  persists". A live socket writes a file into the directory it is bound to; a write into
  a directory that is gone writes nothing.
\<close>

definition persist :: "state \<Rightarrow> nat \<Rightarrow> string \<Rightarrow> string \<Rightarrow> state" where
  "persist st sk name content =
     (case savers st sk of
        None \<Rightarrow> st
      | Some sessionId \<Rightarrow>
          (case dirs st sessionId of
             None \<Rightarrow> st
           | Some d \<Rightarrow> st\<lparr>dirs := (dirs st)(sessionId \<mapsto> d(name \<mapsto> content))\<rparr>))"

fun persist_all :: "state \<Rightarrow> nat \<Rightarrow> (string \<times> string) list \<Rightarrow> state" where
  "persist_all st sk [] = st"
| "persist_all st sk ((name, content) # files) =
     persist_all (persist st sk name content) sk files"

subsection \<open>Creating a session (lines 39 to 114)\<close>

text \<open>Lines 50 to 53: the directory is made only when it does not exist yet.\<close>

definition allocate :: "state \<Rightarrow> string \<Rightarrow> bool \<Rightarrow> (error \<times> state) + state" where
  "allocate st sessionId mkdir_ok =
     (if dirs st sessionId = None
      then (if mkdir_ok then Inr (st\<lparr>dirs := (dirs st)(sessionId \<mapsto> Map.empty)\<rparr>)
            else Inl (FsError, st))
      else Inr st)"

text \<open>\<open>phoneNumber.replace(/[^\d]/g, '')\<close>\<close>

definition digits :: "string \<Rightarrow> string" where
  "digits s = filter (\<lambda>c. c \<in> set ''0123456789'') s"

text \<open>
  Lines 59 to 98: the socket is made, the record stored under the new identifier (line
  67), the \<open>connection.update\<close> listener registered (line 75) and \<open>saveCreds\<close>
  bound to the socket (line 98).
\<close>

definition register :: "state \<Rightarrow> string \<Rightarrow> create_env \<Rightarrow> state" where
  "register st1 phone env =
     (let sessionId = env_uuid env;
          sk = next_sock st1;
          st2 = st1\<lparr>next_sock := Suc sk,
                   activeConnections :=
                     AList.update sessionId
                       \<lparr>sock = sk, phoneNumber = phone, status = Connecting,
                        createdAt = env_now env, qr = None\<rparr>
                       (activeConnections st1)\<rparr>
      in st2\<lparr>listeners := (listeners st2)(sk \<mapsto> sessionId),
             savers := (savers st2)(sk \<mapsto> sessionId)\<rparr>)"

text \<open>
  Lines 56 to 108, what the \<open>try\<close> block does once the directory is there. An exception
  carries the state reached when it was thrown. The record is stored and the listeners
  registered before the pairing code is requested (line 101); while the request is
  awaited the provider persists what it has to.
\<close>

definition create_connect ::
  "state \<Rightarrow> string \<Rightarrow> create_env \<Rightarrow> (error \<times> state) + (response \<times> state)" where
  "create_connect st1 phone env =
     (if \<not> env_auth_ok env then Inl (AdapterError, st1)
      else if \<not> env_version_ok env then Inl (AdapterError, st1)
      else if \<not> env_socket_ok env then Inl (AdapterError, st1)
      else
        let st3 = register st1 phone env;
            st4 = persist_all st3 (next_sock st1) (env_persisted env)
        in case env_pairing env (digits phone) of
             None \<Rightarrow> Inl (AdapterError, st4)
           | Some code \<Rightarrow> Inr ((200, PairBody code (env_uuid env)), st4))"

text \<open>The body of the \<open>try\<close> block, when no other callback runs between its awaits.\<close>

definition create_try ::
  "state \<Rightarrow> string \<Rightarrow> create_env \<Rightarrow> (error \<times> state) + (response \<times> state)" where
  "create_try st phone env =
     (case allocate st (env_uuid env) (env_mkdir_ok env) of
        Inl x \<Rightarrow> Inl x
      | Inr st1 \<Rightarrow> create_connect st1 phone env)"

definition createSession ::
  "state \<Rightarrow> string option \<Rightarrow> create_env \<Rightarrow> response \<times> state" where
  "createSession st number env =
     (case number of
        None \<Rightarrow> ((400, ErrorBody ''Phone number is required''), st)
      | Some phone \<Rightarrow>
          if phone = [] then ((400, ErrorBody ''Phone number is required''), st)
          else (case create_try st phone env of
                  Inr r \<Rightarrow> r
                | Inl (e, st') \<Rightarrow> ((500, ErrorBody ''Failed to generate pair code''), st')))"

text \<open>
  The handler awaits the provider three times (lines 56, 57 and 101), and other callbacks
  may run meanwhile. Its effects on the state fall into two parts: up to the first
  \<open>await\<close> (lines 40 to 56: the check of the number and the directory), and from there
  to the storing of the record and the listeners (lines 56 to 101); the answer itself
  changes nothing. The state after each part:
\<close>

definition create_begins :: "state \<Rightarrow> string option \<Rightarrow> create_env \<Rightarrow> state" where
  "create_begins st number env =
     (case number of
        None \<Rightarrow> st
      | Some phone \<Rightarrow>
          if phone = [] then st
          else (case allocate st (env_uuid env) (env_mkdir_ok env) of
                  Inl (e, st') \<Rightarrow> st'
                | Inr st1 \<Rightarrow> st1))"

definition create_resumes :: "state \<Rightarrow> string option \<Rightarrow> create_env \<Rightarrow> state" where
  "create_resumes st number env =
     (case number of
        None \<Rightarrow> st
      | Some phone \<Rightarrow>
          if phone = [] then st
          else (case create_connect st phone env of
                  Inl (e, st') \<Rightarrow> st'
                | Inr (r, st') \<Rightarrow> st'))"

subsection \<open>The connection.update listener (lines 75 to 95)\<close>

text \<open>
  \<open>activeConnections[sessionId].f = v\<close>, with the \<open>sessionId\<close> of the closure, a
  result of \<open>uuidv4()\<close>: a TypeError when the record is gone.
\<close>

definition assign ::
  "state \<Rightarrow> string \<Rightarrow> (connection \<Rightarrow> connection) \<Rightarrow> error + state" where
  "assign st sessionId f =
     (case map_of (activeConnections st) sessionId of
        None \<Rightarrow> Inl TypeError
      | Some c \<Rightarrow>
          Inr (st\<lparr>activeConnections := AList.update sessionId (f c) (activeConnections st)\<rparr>))"

definition connection_update :: "state \<Rightarrow> string \<Rightarrow> update \<Rightarrow> error + state" where
  "connection_update st sessionId u =
     (case (if truthy (upd_qr u) then assign st sessionId (\<lambda>c. c\<lparr>qr := upd_qr u\<rparr>)
            else Inr st) of
        Inl e \<Rightarrow> Inl e
      | Inr st1 \<Rightarrow>
          if upd_connection u = Some ''close'' then
            (let shouldReconnect = (upd_statusCode u \<noteq> Some loggedOut) in
             if \<not> shouldReconnect then assign st1 sessionId (\<lambda>c. c\<lparr>status := Failed\<rparr>)
             else Inr st1)
          else if upd_connection u = Some ''open'' then
            assign st1 sessionId (\<lambda>c. c\<lparr>status := Connected\<rparr>)
          else Inr st1)"

text \<open>
  The provider emits an event on a socket: the listener runs if it is still registered
  there, with the \<open>sessionId\<close> of its closure.
\<close>

definition deliver :: "state \<Rightarrow> nat \<Rightarrow> update \<Rightarrow> error + state" where
  "deliver st sk u =
     (case listeners st sk of
        None \<Rightarrow> Inr st
      | Some sessionId \<Rightarrow> connection_update st sessionId u)"

subsection \<open>The polling handlers (lines 117 to 179)\<close>

text \<open>
  In each, \<open>if (!connection)\<close> sends away the identifiers that read as \<open>undefined\<close>
  only; an inherited value goes on, with \<open>status\<close> and \<open>qr\<close> undefined.
\<close>

definition check_status :: "state \<Rightarrow> string \<Rightarrow> response" where
  "check_status st sessionId =
     (case lookup st sessionId of
        Absent \<Rightarrow> (404, ErrorBody ''Session not found'')
      | Inherited \<Rightarrow> (200, NoStatusBody)
      | Own c \<Rightarrow> (200, StatusBody (status c) (or_null (qr c))))"

definition get_qr :: "state \<Rightarrow> string \<Rightarrow> response" where
  "get_qr st sessionId =
     (case lookup st sessionId of
        Absent \<Rightarrow> (404, ErrorBody ''Session not found'')
      | Inherited \<Rightarrow> (404, ErrorBody ''QR code not available yet'')
      | Own c \<Rightarrow>
          (case qr c of
             None \<Rightarrow> (404, ErrorBody ''QR code not available yet'')
           | Some q \<Rightarrow>
               if q = [] then (404, ErrorBody ''QR code not available yet'')
               else (200, QrBody q)))"

text \<open>
  A file in a session's directory: \<open>None\<close> when \<open>fs.existsSync\<close> is false, and
  else its content.
\<close>

definition file_of :: "state \<Rightarrow> string \<Rightarrow> string \<Rightarrow> string option" where
  "file_of st sessionId name =
     (case dirs st sessionId of None \<Rightarrow> None | Some d \<Rightarrow> d name)"

text \<open>
  \<open>read_fails\<close> says that \<open>fs.readFileSync\<close> throws on the file that exists: the
  exception leaves the handler before the timer of line 176 is set.
\<close>

definition download_creds :: "state \<Rightarrow> string \<Rightarrow> bool \<Rightarrow> response \<times> state" where
  "download_creds st sessionId read_fails =
     (case lookup st sessionId of
        Absent \<Rightarrow> ((404, ErrorBody ''Session not found''), st)
      | Inherited \<Rightarrow> ((400, ErrorBody ''WhatsApp not connected yet''), st)
      | Own c \<Rightarrow>
          if status c \<noteq> Connected then ((400, ErrorBody ''WhatsApp not connected yet''), st)
          else (case file_of st sessionId ''creds.json'' of
                  None \<Rightarrow> ((404, ErrorBody ''Credentials file not found''), st)
                | Some credsFile \<Rightarrow>
                    if read_fails then ((500, Uncaught FsError), st)
                    else ((200, FileBody credsFile),
                          st\<lparr>timers := timers st @ [sessionId]\<rparr>)))"

subsection \<open>Cleaning up (lines 182 to 218)\<close>

text \<open>
  The three statements of the \<open>try\<close> block of \<open>cleanupSession\<close>, in the order of
  the source. Lines 184 to 189: the socket of the record, if there is one, is ended
  (\<open>connection && connection.sock\<close>: an inherited value has no \<open>sock\<close>).
\<close>

definition close_connection :: "state \<Rightarrow> string \<Rightarrow> state" where
  "close_connection st sessionId =
     (case lookup st sessionId of
        Absent \<Rightarrow> st
      | Inherited \<Rightarrow> st
      | Own c \<Rightarrow> sock_end st (sock c))"

text \<open>
  Lines 191 to 195. \<open>rm_fails\<close> says that \<open>fs.rmSync\<close> throws, should it be called;
  the directory is then taken to stay.
\<close>

definition delete_directory :: "state \<Rightarrow> string \<Rightarrow> bool \<Rightarrow> (error \<times> state) + state" where
  "delete_directory st sessionId rm_fails =
     (if dirs st sessionId \<noteq> None
      then (if rm_fails then Inl (FsError, st)
            else Inr (st\<lparr>dirs := (dirs st)(sessionId := None)\<rparr>))
      else Inr st)"

text \<open>Line 198: \<open>delete activeConnections[sessionId]\<close> removes an own property.\<close>

definition remove_record :: "state \<Rightarrow> string \<Rightarrow> state" where
  "remove_record st sessionId =
     st\<lparr>activeConnections := AList.delete sessionId (activeConnections st)\<rparr>"

text \<open>The block: an exception carries the state reached when it was thrown.\<close>

definition cleanup_try :: "state \<Rightarrow> string \<Rightarrow> bool \<Rightarrow> (error \<times> state) + state" where
  "cleanup_try st sessionId rm_fails =
     (case delete_directory (close_connection st sessionId) sessionId rm_fails of
        Inl x \<Rightarrow> Inl x
      | Inr st2 \<Rightarrow> Inr (remove_record st2 sessionId))"

text \<open>\<open>catch (error) { console.error(...) }\<close>: nothing is thrown on.\<close>

definition cleanupSession :: "state \<Rightarrow> string \<Rightarrow> bool \<Rightarrow> error + state" where
  "cleanupSession st sessionId rm_fails =
     (case cleanup_try st sessionId rm_fails of
        Inr st' \<Rightarrow> Inr st'
      | Inl (e, st') \<Rightarrow> Inr st')"

text \<open>The oldest pending timer of line 176 fires.\<close>

definition fire_timer :: "state \<Rightarrow> bool \<Rightarrow> error + state" where
  "fire_timer st rm_fails =
     (case timers st of
        [] \<Rightarrow> Inr st
      | sessionId # rest \<Rightarrow> cleanupSession (st\<lparr>timers := rest\<rparr>) sessionId rm_fails)"

text \<open>\<open>(now - connection.createdAt) / 60000\<close>\<close>

definition ageInMinutes :: "int \<Rightarrow> connection \<Rightarrow> real" where
  "ageInMinutes t c = real_of_int (t - createdAt c) / 60000"

text \<open>
  The \<open>forEach\<close> of the hourly sweep over the keys taken at its start. Reading
  \<open>createdAt\<close> of \<open>undefined\<close> is a TypeError, which ends the loop; an inherited value
  has no \<open>createdAt\<close>, its age is NaN and the comparison false.
\<close>

fun sweep_keys :: "state \<Rightarrow> int \<Rightarrow> (string \<Rightarrow> bool) \<Rightarrow> string list \<Rightarrow> error + state" where
  "sweep_keys st t rmf [] = Inr st"
| "sweep_keys st t rmf (sessionId # ks) =
     (case lookup st sessionId of
        Absent \<Rightarrow> Inl TypeError
      | Inherited \<Rightarrow> sweep_keys st t rmf ks
      | Own c \<Rightarrow>
          if ageInMinutes t c > 120
          then (case cleanupSession st sessionId (rmf sessionId) of
                  Inl e \<Rightarrow> Inl e
                | Inr st' \<Rightarrow> sweep_keys st' t rmf ks)
          else sweep_keys st t rmf ks)"

text \<open>\<open>Object.keys(activeConnections)\<close>: every own key once.\<close>

definition keys :: "state \<Rightarrow> string list" where
  "keys st = remdups (map fst (activeConnections st))"

definition sweep :: "state \<Rightarrow> int \<Rightarrow> (string \<Rightarrow> bool) \<Rightarrow> error + state" where
  "sweep st t rmf = sweep_keys st t rmf (keys st)"

subsection \<open>Runs of the server\<close>

text \<open>
  What can happen to the server, one callback at a time: a request to one of the four
  routes, an event of the provider on a socket, a file the provider persists through a
  socket, a cleanup timer firing, the sweep. A creation request is either run as a whole
  (\<open>Create\<close>) or in its two parts, with any other callbacks in between
  (\<open>CreateBegins\<close>, \<open>CreateResumes\<close>).
\<close>

datatype action =
    Create "string option" create_env
  | CreateBegins "string option" create_env
  | CreateResumes "string option" create_env
  | Event nat update
  | Persist nat string string
  | CheckStatus string
  | GetQr string
  | Download string bool
  | TimerFires bool
  | Sweep int "string \<Rightarrow> bool"

fun step :: "state \<Rightarrow> action \<Rightarrow> error + state" where
  "step st (Create p env) = Inr (snd (createSession st p env))"
| "step st (CreateBegins p env) = Inr (create_begins st p env)"
| "step st (CreateResumes p env) = Inr (create_resumes st p env)"
| "step st (Event sk u) = deliver st sk u"
| "step st (Persist sk name content) = Inr (persist st sk name content)"
| "step st (CheckStatus sessionId) = Inr st"
| "step st (GetQr sessionId) = Inr st"
| "step st (Download sessionId read_fails) =
     Inr (snd (download_creds st sessionId read_fails))"
| "step st (TimerFires rm_fails) = fire_timer st rm_fails"
| "step st (Sweep t rmf) = sweep st t rmf"

fun run :: "state \<Rightarrow> action list \<Rightarrow> error + state" where
  "run st [] = Inr st"
| "run st (a # as) = (case step st a of Inl e \<Rightarrow> Inl e | Inr st' \<Rightarrow> run st' as)"

text \<open>The identifier a creation request takes from \<open>uuidv4()\<close>.\<close>

fun created_id :: "action \<Rightarrow> string option" where
  "created_id (Create p env) = Some (env_uuid env)"
| "created_id (CreateBegins p env) = Some (env_uuid env)"
| "created_id (CreateResumes p env) = Some (env_uuid env)"
| "created_id a = None"

text \<open>An event that reports a close with the provider's logged-out code, on socket \<open>sk\<close>.\<close>

fun logout_on :: "nat \<Rightarrow> action \<Rightarrow> bool" where
  "logout_on sk (Event sk' u) =
     (sk' = sk \<and> upd_connection u = Some ''close'' \<and> upd_statusCode u = Some loggedOut)"
| "logout_on sk a = False"

text \<open>
  A state in which every registered listener belongs to the socket of a record of the
  Registry, stored under the identifier the listener captured.
\<close>

definition consistent :: "state \<Rightarrow> bool" where
  "consistent st =
     (\<forall>k s. listeners st k = Some s \<longrightarrow>
        k < next_sock st \<and> (\<exists>c. map_of (activeConnections st) s = Some c \<and> sock c = k))"

text \<open>\<open>uuidv4()\<close> gives an identifier that no record of the Registry has.\<close>

fun fresh :: "state \<Rightarrow> action \<Rightarrow> bool" where
  "fresh st (Create p env) = (map_of (activeConnections st) (env_uuid env) = None)"
| "fresh st (CreateResumes p env) = (map_of (activeConnections st) (env_uuid env) = None)"
| "fresh st a = True"

fun fresh_run :: "state \<Rightarrow> action list \<Rightarrow> bool" where
  "fresh_run st [] = True"
| "fresh_run st (a # as) =
     (fresh st a \<and> (case step st a of Inl e \<Rightarrow> True | Inr st' \<Rightarrow> fresh_run st' as))"

text \<open>The server as it starts: no session, no directory, no socket.\<close>

definition init :: state where
  "init = \<lparr>activeConnections = [], dirs = Map.empty, listeners = Map.empty,
           savers = Map.empty, next_sock = 0, timers = []\<rparr>"

subsection \<open>A session to compute with\<close>

text \<open>
  A creation request for \<open>+15551234567\<close> that the provider answers with a pairing code,
  one during which the provider also saves its credentials, and one whose pairing-code
  request it rejects.
\<close>

definition env_abc :: create_env where
  "env_abc = \<lparr>env_uuid = ''abc'', env_now = 0, env_mkdir_ok = True, env_auth_ok = True,
              env_version_ok = True, env_socket_ok = True, env_persisted = [],
              env_pairing = (\<lambda>d. if d = ''15551234567'' then Some ''ABCD-1234'' else None)\<rparr>"

definition env_saving :: create_env where
  "env_saving = env_abc\<lparr>env_persisted := [(''creds.json'', ''{}'')]\<rparr>"

definition env_reject :: create_env where
  "env_reject = env_abc\<lparr>env_pairing := (\<lambda>d. None)\<rparr>"

text \<open>A later creation request, which is given another identifier.\<close>

definition env_other :: create_env where
  "env_other = env_abc\<lparr>env_uuid := ''def'', env_now := 5\<rparr>"

text \<open>The record and the state right after the creation, and once the pairing is done.\<close>

definition conn_new :: connection where
  "conn_new = \<lparr>sock = 0, phoneNumber = ''+15551234567'', status = Connecting,
               createdAt = 0, qr = None\<rparr>"

definition st_new :: state where
  "st_new = \<lparr>activeConnections = [(''abc'', conn_new)], dirs = [''abc'' \<mapsto> Map.empty],
             listeners = [0 \<mapsto> ''abc''], savers = [0 \<mapsto> ''abc''], next_sock = 1,
             timers = []\<rparr>"

definition conn_open :: connection where
  "conn_open = conn_new\<lparr>status := Connected\<rparr>"

definition st_open :: state where
  "st_open = \<lparr>activeConnections = [(''abc'', conn_open)],
              dirs = [''abc'' \<mapsto> [''creds.json'' \<mapsto> ''{}'']],
              listeners = [0 \<mapsto> ''abc''], savers = [0 \<mapsto> ''abc''], next_sock = 1,
              timers = []\<rparr>"

text \<open>The events \<open>open\<close>, \<open>close\<close> with the logged-out code, and a new scannable code.\<close>

definition ev_open :: update where
  "ev_open = \<lparr>upd_connection = Some ''open'', upd_statusCode = None, upd_qr = None\<rparr>"

definition ev_logout :: update where
  "ev_logout = \<lparr>upd_connection = Some ''close'', upd_statusCode = Some 401, upd_qr = None\<rparr>"

definition ev_qr :: update where
  "ev_qr = \<lparr>upd_connection = None, upd_statusCode = None, upd_qr = Some ''2@xyz''\<rparr>"

section \<open>Properties\<close>

lemmas cleanup_defs = cleanupSession_def cleanup_try_def close_connection_def
  delete_directory_def remove_record_def sock_end_def lookup_def

lemmas create_defs = createSession_def create_try_def create_connect_def register_def
  allocate_def persist_def Let_def

subsection \<open>What the provider persists\<close>

lemma persist_effect:
  "activeConnections (persist st sk name content) = activeConnections st \<and>
   listeners (persist st sk name content) = listeners st \<and>
   savers (persist st sk name content) = savers st \<and>
   next_sock (persist st sk name content) = next_sock st \<and>
   timers (persist st sk name content) = timers st \<and>
   (dirs (persist st sk name content) s = None \<longleftrightarrow> dirs st s = None)"
  by (auto simp: persist_def split: option.splits)

lemma persist_all_effect:
  "activeConnections (persist_all st sk files) = activeConnections st \<and>
   listeners (persist_all st sk files) = listeners st \<and>
   savers (persist_all st sk files) = savers st \<and>
   next_sock (persist_all st sk files) = next_sock st \<and>
   timers (persist_all st sk files) = timers st \<and>
   (dirs (persist_all st sk files) s = None \<longleftrightarrow> dirs st s = None)"
proof (induction files arbitrary: st)
  case Nil
  then show ?case by simp
next
  case (Cons f files)
  obtain name content where f: "f = (name, content)" by (cases f)
  from Cons [of "persist st sk name content"] persist_effect [of st sk name content s]
  show ?case by (simp add: f)
qed

text \<open>A file is written into the directory the socket is bound to, and nowhere else.\<close>

lemma persist_other:
  "savers st sk \<noteq> Some s \<Longrightarrow> dirs (persist st sk name content) s = dirs st s"
  by (auto simp: persist_def split: option.splits)

lemma persist_written:
  assumes "savers st sk = Some s" and "dirs st s = Some d"
  shows "file_of (persist st sk name content) s name = Some content"
  using assms by (simp add: persist_def file_of_def)

subsection \<open>The example session is the one the code makes\<close>

lemma createSession_example:
  "createSession init (Some ''+15551234567'') env_abc =
     ((200, PairBody ''ABCD-1234'' ''abc''), st_new)"
  by (simp add: create_defs digits_def init_def env_abc_def st_new_def conn_new_def)

text \<open>When the provider saves its credentials during the request, the file is there.\<close>

lemma createSession_example_saving:
  "createSession init (Some ''+15551234567'') env_saving =
     ((200, PairBody ''ABCD-1234'' ''abc''),
      st_new\<lparr>dirs := [''abc'' \<mapsto> [''creds.json'' \<mapsto> ''{}'']]\<rparr>)"
  by (simp add: create_defs digits_def init_def env_saving_def env_abc_def st_new_def
      conn_new_def)

text \<open>
  The scenario of pairing and download: the request in its two parts, the credentials
  saved, the \<open>open\<close> event, the download, and the timer that cleans up.
\<close>

lemma pairing_scenario:
  "run init [CreateBegins (Some ''+15551234567'') env_abc,
             CreateResumes (Some ''+15551234567'') env_abc,
             Persist 0 ''creds.json'' ''{}'', Event 0 ev_open] = Inr st_open"
  "check_status st_open ''abc'' = (200, StatusBody Connected None)"
  "download_creds st_open ''abc'' False =
     ((200, FileBody ''{}''), st_open\<lparr>timers := [''abc'']\<rparr>)"
  "run (st_open\<lparr>timers := [''abc'']\<rparr>) [TimerFires False] = Inr (init\<lparr>next_sock := 1\<rparr>)"
  "check_status (init\<lparr>next_sock := 1\<rparr>) ''abc'' = (404, ErrorBody ''Session not found'')"
  by (simp_all add: create_begins_def create_resumes_def create_defs digits_def deliver_def
      connection_update_def assign_def truthy_def or_null_def check_status_def lookup_def
      proto_keys_def download_creds_def file_of_def fire_timer_def cleanupSession_def
      cleanup_try_def close_connection_def delete_directory_def remove_record_def
      sock_end_def init_def env_abc_def st_open_def conn_open_def conn_new_def ev_open_def)

lemma createSession_no_number:
  "createSession st None env = ((400, ErrorBody ''Phone number is required''), st)"
  "createSession st (Some []) env = ((400, ErrorBody ''Phone number is required''), st)"
  by (simp_all add: createSession_def)

text \<open>The handler run as a whole is its two parts, one after the other.\<close>

lemma createSession_parts:
  assumes "allocate st (env_uuid env) (env_mkdir_ok env) = Inr st1"
  shows "snd (createSession st number env) =
           create_resumes (create_begins st number env) number env"
  using assms
  by (auto simp: createSession_def create_try_def create_begins_def create_resumes_def
      split: option.splits sum.splits)

subsection \<open>Creation\<close>

lemma create_connect_failure:
  assumes "create_connect st1 phone env = Inl (e, st')"
  shows "if env_auth_ok env \<and> env_version_ok env \<and> env_socket_ok env
         then map_of (activeConnections st') (env_uuid env) =
                Some \<lparr>sock = next_sock st1, phoneNumber = phone, status = Connecting,
                      createdAt = env_now env, qr = None\<rparr> \<and>
              listeners st' (next_sock st1) = Some (env_uuid env) \<and>
              (dirs st' (env_uuid env) = None \<longleftrightarrow> dirs st1 (env_uuid env) = None)
         else st' = st1"
proof (cases "env_auth_ok env \<and> env_version_ok env \<and> env_socket_ok env")
  case False
  with assms show ?thesis
    by (auto simp: create_connect_def Let_def split: if_splits)
next
  case True
  let ?st3 = "register st1 phone env"
  from assms True have "st' = persist_all ?st3 (next_sock st1) (env_persisted env)"
    by (auto simp: create_connect_def Let_def split: option.splits)
  with persist_all_effect [of ?st3 "next_sock st1" "env_persisted env" "env_uuid env"] True
  show ?thesis by (simp add: register_def Let_def update_conv')
qed

text \<open>
  C1 (as amended). When the handshake start fails after the storage directory was
  allocated, the creation handler answers 500 and rolls nothing back: the directory stays
  on disk. If the failure precedes the construction of the socket, the state is the one
  the allocation left, with no new record; if it is the pairing-code request that fails,
  the record stored before it (status \<open>connecting\<close>) and its listener stay registered.
\<close>

theorem createSession_start_failure_no_rollback:
  assumes "phone \<noteq> []"
    and "allocate st (env_uuid env) (env_mkdir_ok env) = Inr st1"
    and "\<not> env_auth_ok env \<or> \<not> env_version_ok env \<or> \<not> env_socket_ok env \<or>
         env_pairing env (digits phone) = None"
  shows "fst (createSession st (Some phone) env) =
           (500, ErrorBody ''Failed to generate pair code'') \<and>
         dirs (snd (createSession st (Some phone) env)) (env_uuid env) \<noteq> None \<and>
         (if env_auth_ok env \<and> env_version_ok env \<and> env_socket_ok env
          then map_of (activeConnections (snd (createSession st (Some phone) env)))
                 (env_uuid env) =
                 Some \<lparr>sock = next_sock st, phoneNumber = phone, status = Connecting,
                       createdAt = env_now env, qr = None\<rparr> \<and>
               listeners (snd (createSession st (Some phone) env)) (next_sock st) =
                 Some (env_uuid env)
          else snd (createSession st (Some phone) env) = st1)"
proof -
  from assms(3) have "\<exists>e st'. create_connect st1 phone env = Inl (e, st')"
    by (auto simp: create_connect_def Let_def)
  then obtain e st' where f: "create_connect st1 phone env = Inl (e, st')" by blast
  from assms(1,2) f have r: "createSession st (Some phone) env =
      ((500, ErrorBody ''Failed to generate pair code''), st')"
    by (simp add: createSession_def create_try_def)
  from assms(2) have a: "dirs st1 (env_uuid env) \<noteq> None" "next_sock st1 = next_sock st"
    by (auto simp: allocate_def split: if_splits)
  from create_connect_failure [OF f] a r show ?thesis
    by (auto split: if_splits)
qed

theorem createSession_start_failure_no_rollback_witness:
  "allocate init ''abc'' True = Inr (init\<lparr>dirs := [''abc'' \<mapsto> Map.empty]\<rparr>) \<and>
   env_pairing env_reject (digits ''+15551234567'') = None \<and>
   fst (createSession init (Some ''+15551234567'') env_reject) =
     (500, ErrorBody ''Failed to generate pair code'') \<and>
   dirs (snd (createSession init (Some ''+15551234567'') env_reject)) ''abc'' \<noteq> None \<and>
   map_of (activeConnections (snd (createSession init (Some ''+15551234567'') env_reject)))
     ''abc'' = Some conn_new"
proof -
  have a: "allocate init (env_uuid env_reject) (env_mkdir_ok env_reject) =
             Inr (init\<lparr>dirs := [''abc'' \<mapsto> Map.empty]\<rparr>)"
    by (simp add: allocate_def init_def env_reject_def env_abc_def)
  have f: "\<not> env_auth_ok env_reject \<or> \<not> env_version_ok env_reject \<or>
           \<not> env_socket_ok env_reject \<or>
           env_pairing env_reject (digits ''+15551234567'') = None"
    by (simp add: env_reject_def)
  have n: "''+15551234567'' \<noteq> []" by simp
  show ?thesis
    using createSession_start_failure_no_rollback [OF n a f] a
    by (simp add: env_reject_def env_abc_def init_def conn_new_def)
qed

theorem createSession_rollback_counterexample:
  "env_pairing env_reject (digits ''+15551234567'') = None \<and>
   fst (createSession init (Some ''+15551234567'') env_reject) =
     (500, ErrorBody ''Failed to generate pair code'') \<and>
   dirs (snd (createSession init (Some ''+15551234567'') env_reject)) ''abc'' \<noteq> None \<and>
   map_of (activeConnections (snd (createSession init (Some ''+15551234567'') env_reject)))
     ''abc'' \<noteq> None"
  by (simp add: create_defs init_def env_reject_def env_abc_def)

text \<open>
  C8 (as amended). When the storage location of the session identifier already exists,
  allocation does not fail and makes nothing: it returns with the existing directory as
  it is, whatever the file system would have answered to a creation. Allocation fails
  only when the directory is missing and cannot be made; a missing directory that can be
  made is made empty.
\<close>

theorem allocate_reuses_existing_directory:
  "(dirs st sessionId = Some d \<longrightarrow> allocate st sessionId mkdir_ok = Inr st) \<and>
   (dirs st sessionId = None \<longrightarrow>
      allocate st sessionId True =
        Inr (st\<lparr>dirs := (dirs st)(sessionId \<mapsto> Map.empty)\<rparr>) \<and>
      allocate st sessionId False = Inl (FsError, st))"
  by (simp add: allocate_def)

theorem allocate_reuses_existing_directory_witness:
  "dirs st_open ''abc'' = Some [''creds.json'' \<mapsto> ''{}''] \<and>
   allocate st_open ''abc'' False = Inr st_open \<and>
   dirs init ''abc'' = None \<and>
   allocate init ''abc'' True = Inr (init\<lparr>dirs := (dirs init)(''abc'' \<mapsto> Map.empty)\<rparr>) \<and>
   allocate init ''abc'' False = Inl (FsError, init)"
proof -
  have h: "dirs st_open ''abc'' = Some [''creds.json'' \<mapsto> ''{}'']"
    by (simp add: st_open_def)
  have n: "dirs init ''abc'' = None" by (simp add: init_def)
  show ?thesis
    using h n
      allocate_reuses_existing_directory [of st_open "''abc''" "[''creds.json'' \<mapsto> ''{}'']" False]
      allocate_reuses_existing_directory [of init "''abc''"]
    by simp
qed

theorem allocate_existing_counterexample:
  "dirs st_open ''abc'' = Some [''creds.json'' \<mapsto> ''{}''] \<and>
   allocate st_open ''abc'' True = Inr st_open \<and>
   fst (createSession st_open (Some ''+15551234567'') env_abc) =
     (200, PairBody ''ABCD-1234'' ''abc'')"
  by (simp add: create_defs digits_def st_open_def env_abc_def)

subsection \<open>Polling\<close>

text \<open>
  C9 (as amended). For a session of the Registry that has no scannable code yet, the
  scannable-code route answers 404 with the message \<open>QR code not available yet\<close>. An
  identifier that no record has is answered 404 as well: with \<open>Session not found\<close>, or,
  when it is the name of a property that every object inherits (\<open>constructor\<close>,
  \<open>__proto__\<close> and the like), with the same \<open>QR code not available yet\<close>. No answer
  has the status 409.
\<close>

theorem get_qr_not_available_is_404:
  "(map_of (activeConnections st) sid = Some c \<and> \<not> truthy (qr c) \<longrightarrow>
      get_qr st sid = (404, ErrorBody ''QR code not available yet'')) \<and>
   (map_of (activeConnections st) sid = None \<longrightarrow>
      get_qr st sid =
        (404, ErrorBody (if sid \<in> set proto_keys then ''QR code not available yet''
                         else ''Session not found''))) \<and>
   fst (get_qr st sid) \<noteq> 409"
  by (auto simp: get_qr_def lookup_def truthy_def split: option.splits)

theorem get_qr_not_available_is_404_witness:
  "map_of (activeConnections st_new) ''abc'' = Some conn_new \<and> \<not> truthy (qr conn_new) \<and>
   get_qr st_new ''abc'' = (404, ErrorBody ''QR code not available yet'') \<and>
   map_of (activeConnections st_new) ''zzz'' = None \<and>
   get_qr st_new ''zzz'' = (404, ErrorBody ''Session not found'') \<and>
   map_of (activeConnections st_new) ''constructor'' = None \<and>
   get_qr st_new ''constructor'' = (404, ErrorBody ''QR code not available yet'')"
  using get_qr_not_available_is_404 [of st_new "''abc''" conn_new]
    get_qr_not_available_is_404 [of st_new "''zzz''"]
    get_qr_not_available_is_404 [of st_new "''constructor''"]
  by (simp add: st_new_def conn_new_def truthy_def proto_keys_def)

theorem get_qr_409_counterexample:
  "map_of (activeConnections st_new) ''abc'' = Some conn_new \<and> qr conn_new = None \<and>
   fst (get_qr st_new ''abc'') = 404 \<and> fst (get_qr st_new ''abc'') \<noteq> 409 \<and>
   fst (get_qr st_new ''zzz'') = fst (get_qr st_new ''abc'')"
  by (simp add: get_qr_def lookup_def proto_keys_def st_new_def conn_new_def)

text \<open>The status route for the three kinds of identifier.\<close>

lemma check_status_cases:
  "map_of (activeConnections st) sid = Some c \<Longrightarrow>
     check_status st sid = (200, StatusBody (status c) (or_null (qr c)))"
  "map_of (activeConnections st) sid = None \<Longrightarrow> sid \<in> set proto_keys \<Longrightarrow>
     check_status st sid = (200, NoStatusBody)"
  "map_of (activeConnections st) sid = None \<Longrightarrow> sid \<notin> set proto_keys \<Longrightarrow>
     check_status st sid = (404, ErrorBody ''Session not found'')"
  by (simp_all add: check_status_def lookup_def)

text \<open>
  C10. A download that does not succeed (unknown session, status other than
  \<open>connected\<close>, no \<open>creds.json\<close> in the session's directory, or a read that throws)
  answers with an error and leaves the whole state as it was: Registry, directories,
  listeners and pending timers. The state changes only when the credential file was read
  and sent, and then by one new cleanup timer for the session and nothing else.
\<close>

theorem download_creds_failure_frame:
  "((map_of (activeConnections st) sid = None \<or>
     (\<exists>c. map_of (activeConnections st) sid = Some c \<and> status c \<noteq> Connected) \<or>
     file_of st sid ''creds.json'' = None \<or> read_fails) \<longrightarrow>
      fst (fst (download_creds st sid read_fails)) \<noteq> 200 \<and>
      snd (download_creds st sid read_fails) = st) \<and>
   (snd (download_creds st sid read_fails) \<noteq> st \<longrightarrow>
      (\<exists>c b. map_of (activeConnections st) sid = Some c \<and> status c = Connected \<and>
         file_of st sid ''creds.json'' = Some b \<and> \<not> read_fails \<and>
         download_creds st sid read_fails =
           ((200, FileBody b), st\<lparr>timers := timers st @ [sid]\<rparr>)))"
  by (auto simp: download_creds_def lookup_def split: option.splits)

theorem download_creds_failure_frame_witness:
  "status conn_new \<noteq> Connected \<and>
   download_creds st_new ''abc'' False =
     ((400, ErrorBody ''WhatsApp not connected yet''), st_new) \<and>
   download_creds st_open ''abc'' True = ((500, Uncaught FsError), st_open) \<and>
   snd (download_creds st_open ''abc'' False) \<noteq> st_open \<and>
   download_creds st_open ''abc'' False =
     ((200, FileBody ''{}''), st_open\<lparr>timers := timers st_open @ [''abc'']\<rparr>)"
proof -
  have a: "map_of (activeConnections st_new) ''abc'' = Some conn_new"
    "status conn_new \<noteq> Connected"
    by (simp_all add: st_new_def conn_new_def)
  have r: "download_creds st_new ''abc'' False =
             ((400, ErrorBody ''WhatsApp not connected yet''), st_new)"
    by (simp add: download_creds_def lookup_def a)
  have t: "download_creds st_open ''abc'' True = ((500, Uncaught FsError), st_open)"
    by (simp add: download_creds_def lookup_def file_of_def st_open_def conn_open_def
        conn_new_def)
  have b: "timers (snd (download_creds st_open ''abc'' False)) \<noteq> timers st_open"
    by (simp add: download_creds_def lookup_def file_of_def st_open_def conn_open_def
        conn_new_def)
  then have c: "snd (download_creds st_open ''abc'' False) \<noteq> st_open" by auto
  have f: "file_of st_open ''abc'' ''creds.json'' = Some ''{}''"
    by (simp add: file_of_def st_open_def)
  show ?thesis
    using a r t c f download_creds_failure_frame [of st_new "''abc''" False]
      download_creds_failure_frame [of st_open "''abc''" False]
    by auto
qed

subsection \<open>Cleaning up\<close>

lemma map_of_None_delete: "map_of al k = None \<Longrightarrow> AList.delete k al = al"
  by (induction al) (auto split: if_splits)

lemma cleanupSession_total: "\<exists>st'. cleanupSession st k f = Inr st'"
  by (auto simp: cleanupSession_def split: sum.splits)

text \<open>A cleanup of one session leaves the record and the directory of every other.\<close>

lemma cleanupSession_other:
  assumes "cleanupSession st k f = Inr st'" and "s \<noteq> k"
  shows "map_of (activeConnections st') s = map_of (activeConnections st) s"
    and "dirs st' s = dirs st s"
  using assms
  by (auto simp: cleanup_defs delete_conv' split: option.splits if_splits sum.splits)

text \<open>A cleanup adds nothing: no record, no directory, no listener, no socket.\<close>

lemma cleanupSession_shrinks:
  assumes "cleanupSession st k f = Inr st'"
  shows "(map_of (activeConnections st') s = None \<or>
          map_of (activeConnections st') s = map_of (activeConnections st) s) \<and>
         (dirs st' s = None \<or> dirs st' s = dirs st s) \<and>
         (listeners st' x = None \<or> listeners st' x = listeners st x) \<and>
         next_sock st' = next_sock st"
  using assms
  by (auto simp: cleanup_defs delete_conv' split: option.splits if_splits sum.splits)


lemma cleanupSession_clears:
  assumes "\<not> f \<or> dirs st sid = None"
  shows "\<exists>st1. cleanupSession st sid f = Inr st1 \<and>
           map_of (activeConnections st1) sid = None \<and> dirs st1 sid = None"
  using assms
  by (auto simp: cleanup_defs delete_conv' split: option.splits if_splits)

lemma cleanupSession_absent:
  assumes "map_of (activeConnections st) sid = None" and "dirs st sid = None"
  shows "cleanupSession st sid f = Inr st"
  using assms by (simp add: cleanup_defs map_of_None_delete)




text \<open>
  C5 (as amended). Neither of two cleanups of a session, one after the other, surfaces
  an error. When the removal of the directory does not raise in the first (it is not
  attempted when the directory is absent), the session has no directory and no Registry
  entry after the first call, and the second call returns that state as it is, whatever
  the file system would answer: cleaning up twice is cleaning up once. When the first
  removal raises, the directory and the entry stay (C4), and a second call whose removal
  succeeds changes the state again.
\<close>

theorem cleanupSession_twice:
  "\<exists>s1 s2. cleanupSession st sid rm_fails1 = Inr s1 \<and>
     cleanupSession s1 sid rm_fails2 = Inr s2 \<and>
     (\<not> rm_fails1 \<or> dirs st sid = None \<longrightarrow>
        s2 = s1 \<and> map_of (activeConnections s1) sid = None \<and> dirs s1 sid = None)"
proof (cases "\<not> rm_fails1 \<or> dirs st sid = None")
  case True
  from cleanupSession_clears [OF True] obtain s1 where
    s1: "cleanupSession st sid rm_fails1 = Inr s1"
      "map_of (activeConnections s1) sid = None" "dirs s1 sid = None"
    by blast
  from cleanupSession_absent [OF s1(2,3), of rm_fails2] s1 show ?thesis by blast
next
  case False
  obtain s1 where s1: "cleanupSession st sid rm_fails1 = Inr s1"
    using cleanupSession_total by blast
  obtain s2 where s2: "cleanupSession s1 sid rm_fails2 = Inr s2"
    using cleanupSession_total by blast
  from s1 s2 False show ?thesis
    by (intro exI [of _ s1] exI [of _ s2] conjI) blast+
qed

theorem cleanupSession_twice_witness:
  "cleanupSession st_open ''abc'' False = Inr (init\<lparr>next_sock := 1\<rparr>) \<and>
   cleanupSession (init\<lparr>next_sock := 1\<rparr>) ''abc'' True = Inr (init\<lparr>next_sock := 1\<rparr>) \<and>
   map_of (activeConnections (init\<lparr>next_sock := 1\<rparr>)) ''abc'' = None \<and>
   dirs (init\<lparr>next_sock := 1\<rparr>) ''abc'' = None"
proof -
  have a: "cleanupSession st_open ''abc'' False = Inr (init\<lparr>next_sock := 1\<rparr>)"
    by (simp add: cleanup_defs init_def st_open_def conn_open_def conn_new_def)
  from cleanupSession_twice [of st_open "''abc''" False True] a show ?thesis
    by auto
qed

theorem cleanupSession_twice_counterexample:
  "cleanupSession st_open ''abc'' True = Inr (sock_end st_open 0) \<and>
   map_of (activeConnections (sock_end st_open 0)) ''abc'' \<noteq> None \<and>
   dirs (sock_end st_open 0) ''abc'' \<noteq> None \<and>
   cleanupSession (sock_end st_open 0) ''abc'' False = Inr (init\<lparr>next_sock := 1\<rparr>) \<and>
   init\<lparr>next_sock := 1\<rparr> \<noteq> sock_end st_open 0"
proof -
  have "init\<lparr>next_sock := 1\<rparr> \<noteq> sock_end st_open 0"
  proof
    assume "init\<lparr>next_sock := 1\<rparr> = sock_end st_open 0"
    then have "activeConnections (init\<lparr>next_sock := 1\<rparr>) =
               activeConnections (sock_end st_open 0)"
      by (rule arg_cong)
    then show False by (simp add: init_def sock_end_def st_open_def)
  qed
  then show ?thesis
    by (simp add: cleanup_defs init_def st_open_def conn_open_def conn_new_def)
qed

subsection \<open>The sweep\<close>

text \<open>Over 120 minutes is over 7200000 milliseconds.\<close>

lemma ageInMinutes_over: "ageInMinutes t c > 120 \<longleftrightarrow> t - createdAt c > 7200000"
proof -
  have "ageInMinutes t c > 120 \<longleftrightarrow> real_of_int (t - createdAt c) > real_of_int 7200000"
    by (simp add: ageInMinutes_def field_simps)
  also have "\<dots> \<longleftrightarrow> t - createdAt c > 7200000"
    by (simp only: of_int_less_iff)
  finally show ?thesis .
qed

lemma lookup_Own: "lookup st k = Own c \<longleftrightarrow> map_of (activeConnections st) k = Some c"
  by (auto simp: lookup_def split: option.splits)

lemma sweep_keys_shrinks:
  "sweep_keys st t rmf ks = Inr st' \<Longrightarrow>
     (map_of (activeConnections st') s = None \<or>
        map_of (activeConnections st') s = map_of (activeConnections st) s) \<and>
     (dirs st' s = None \<or> dirs st' s = dirs st s) \<and>
     (listeners st' x = None \<or> listeners st' x = listeners st x) \<and>
     next_sock st' = next_sock st"
proof (induction ks arbitrary: st)
  case Nil
  then show ?case by simp
next
  case (Cons k ks)
  show ?case
  proof (cases "lookup st k")
    case Absent
    with Cons.prems show ?thesis by simp
  next
    case Inherited
    with Cons show ?thesis by simp
  next
    case (Own c)
    show ?thesis
    proof (cases "ageInMinutes t c > 120")
      case False
      with Cons Own show ?thesis by simp
    next
      case True
      obtain st1 where st1: "cleanupSession st k (rmf k) = Inr st1"
        using cleanupSession_total by blast
      with Cons.prems Own True have "sweep_keys st1 t rmf ks = Inr st'" by simp
      from Cons.IH [OF this] cleanupSession_shrinks [OF st1, of s x]
      show ?thesis by auto
    qed
  qed
qed


text \<open>The loop never reads a record that is gone: each key is visited once.\<close>

lemma sweep_keys_total:
  "distinct ks \<Longrightarrow> set ks \<subseteq> dom (map_of (activeConnections st)) \<Longrightarrow>
     \<exists>st'. sweep_keys st t rmf ks = Inr st'"
proof (induction ks arbitrary: st)
  case Nil
  then show ?case by simp
next
  case (Cons k ks)
  from Cons.prems obtain c where "map_of (activeConnections st) k = Some c"
    by auto
  then have c: "lookup st k = Own c" by (simp add: lookup_Own)
  show ?case
  proof (cases "ageInMinutes t c > 120")
    case False
    with Cons c show ?thesis by simp
  next
    case True
    obtain st1 where st1: "cleanupSession st k (rmf k) = Inr st1"
      using cleanupSession_total by blast
    have "set ks \<subseteq> dom (map_of (activeConnections st1))"
    proof
      fix s assume s: "s \<in> set ks"
      with Cons.prems have "s \<noteq> k" "s \<in> dom (map_of (activeConnections st))" by auto
      with cleanupSession_other(1) [OF st1, of s]
      show "s \<in> dom (map_of (activeConnections st1))"
        by (simp add: dom_def)
    qed
    with Cons.IH [of st1] Cons.prems obtain st' where "sweep_keys st1 t rmf ks = Inr st'"
      by auto
    with c True st1 show ?thesis by simp
  qed
qed


text \<open>A session that is not over the age is left to the next sweep.\<close>

lemma sweep_keys_young:
  assumes "map_of (activeConnections st) sid = Some c"
    and "\<not> ageInMinutes t c > 120"
    and "sweep_keys st t rmf ks = Inr st'"
  shows "map_of (activeConnections st') sid = Some c \<and> dirs st' sid = dirs st sid"
  using assms
proof (induction ks arbitrary: st)
  case Nil
  then show ?case by simp
next
  case (Cons k ks)
  show ?case
  proof (cases "lookup st k")
    case Absent
    with Cons.prems show ?thesis by simp
  next
    case Inherited
    with Cons.prems have "sweep_keys st t rmf ks = Inr st'" by simp
    from Cons.IH [OF Cons.prems(1,2) this] show ?thesis .
  next
    case (Own e)
    show ?thesis
    proof (cases "ageInMinutes t e > 120")
      case True
      with Own Cons.prems(1,2) have ne: "sid \<noteq> k" by (auto simp: lookup_Own)
      obtain st1 where st1: "cleanupSession st k (rmf k) = Inr st1"
        using cleanupSession_total by blast
      from cleanupSession_other [OF st1 ne] Cons.prems(1)
      have keep: "map_of (activeConnections st1) sid = Some c" "dirs st1 sid = dirs st sid"
        by simp_all
      from Cons.prems Own True st1 have "sweep_keys st1 t rmf ks = Inr st'" by simp
      from Cons.IH [OF keep(1) Cons.prems(2) this] keep(2) show ?thesis by simp
    next
      case False
      with Cons.prems Own have "sweep_keys st t rmf ks = Inr st'" by simp
      from Cons.IH [OF Cons.prems(1,2) this] show ?thesis .
    qed
  qed
qed

lemma keys_dom: "set (keys st) = dom (map_of (activeConnections st))" "distinct (keys st)"
  by (simp_all add: keys_def dom_map_of_conv_image_fst)

lemma sweep_total: "\<exists>st'. sweep st t rmf = Inr st'"
  using sweep_keys_total [of "keys st" st t rmf] keys_dom [of st]
  by (simp add: sweep_def)

lemma sweep_keeps_young_session:
  assumes "map_of (activeConnections st) sid = Some c" and "t - createdAt c \<le> 7200000"
  shows "\<exists>st'. sweep st t rmf = Inr st' \<and> map_of (activeConnections st') sid = Some c \<and>
           dirs st' sid = dirs st sid"
proof -
  obtain st' where r: "sweep_keys st t rmf (keys st) = Inr st'"
    using sweep_total [of st t rmf] by (auto simp: sweep_def)
  from assms(2) have "\<not> ageInMinutes t c > 120" by (simp add: ageInMinutes_over)
  from sweep_keys_young [OF assms(1) this r] r show ?thesis
    by (simp add: sweep_def)
qed




subsection \<open>What one step does to a session\<close>

lemma create_begins_effect:
  "activeConnections (create_begins st p env) = activeConnections st \<and>
   listeners (create_begins st p env) = listeners st \<and>
   next_sock (create_begins st p env) = next_sock st"
  by (auto simp: create_begins_def allocate_def split: option.splits sum.splits)

lemma register_effect:
  "listeners (register st phone env) = (listeners st)(next_sock st \<mapsto> env_uuid env) \<and>
   next_sock (register st phone env) = Suc (next_sock st) \<and>
   map_of (activeConnections (register st phone env)) =
     (map_of (activeConnections st))
       (env_uuid env \<mapsto> \<lparr>sock = next_sock st, phoneNumber = phone, status = Connecting,
                          createdAt = env_now env, qr = None\<rparr>)"
  by (simp add: register_def Let_def update_conv')

lemma create_resumes_state:
  "create_resumes st p env = st \<or>
   (\<exists>phone. create_resumes st p env =
      persist_all (register st phone env) (next_sock st) (env_persisted env))"
  by (auto simp: create_resumes_def create_connect_def Let_def
      split: option.splits sum.splits)

lemma create_resumes_effect:
  "listeners (create_resumes st p env) = listeners st \<and>
     next_sock (create_resumes st p env) = next_sock st \<and>
     map_of (activeConnections (create_resumes st p env)) = map_of (activeConnections st) \<or>
   (\<exists>phone.
     listeners (create_resumes st p env) = (listeners st)(next_sock st \<mapsto> env_uuid env) \<and>
     next_sock (create_resumes st p env) = Suc (next_sock st) \<and>
     map_of (activeConnections (create_resumes st p env)) =
       (map_of (activeConnections st))
         (env_uuid env \<mapsto> \<lparr>sock = next_sock st, phoneNumber = phone, status = Connecting,
                            createdAt = env_now env, qr = None\<rparr>))"
proof -
  from create_resumes_state [of st p env] show ?thesis
  proof
    assume "create_resumes st p env = st"
    then show ?thesis by simp
  next
    assume "\<exists>phone. create_resumes st p env =
      persist_all (register st phone env) (next_sock st) (env_persisted env)"
    then obtain phone where "create_resumes st p env =
      persist_all (register st phone env) (next_sock st) (env_persisted env)" by blast
    with persist_all_effect [of "register st phone env" "next_sock st" "env_persisted env"]
      register_effect [of st phone env]
    show ?thesis by auto
  qed
qed

lemma createSession_state:
  "snd (createSession st p env) = st \<or>
   snd (createSession st p env) = create_resumes (create_begins st p env) p env"
proof (cases "allocate st (env_uuid env) (env_mkdir_ok env)")
  case (Inr st1)
  from createSession_parts [OF this] show ?thesis by simp
next
  case (Inl x)
  then show ?thesis
    by (auto simp: createSession_def create_try_def allocate_def
        split: option.splits prod.splits if_splits)
qed

lemma create_resumes_other:
  assumes "env_uuid env \<noteq> sid"
  shows "map_of (activeConnections (create_resumes st p env)) sid =
           map_of (activeConnections st) sid"
    and "listeners (create_resumes st p env) k = Some sid \<Longrightarrow> listeners st k = Some sid"
  using assms create_resumes_effect [of st p env]
  by (auto split: if_splits)

lemma create_resumes_socks:
  "next_sock st \<le> next_sock (create_resumes st p env) \<and>
   (k < next_sock st \<longrightarrow> listeners (create_resumes st p env) k = listeners st k)"
  using create_resumes_effect [of st p env] by auto

lemma createSession_other:
  assumes "env_uuid env \<noteq> sid"
  shows "map_of (activeConnections (snd (createSession st p env))) sid =
           map_of (activeConnections st) sid"
    and "listeners (snd (createSession st p env)) k = Some sid \<Longrightarrow> listeners st k = Some sid"
  using createSession_state [of st p env] create_begins_effect [of st p env]
    create_resumes_other [OF assms, of "create_begins st p env" p]
  by auto

lemma createSession_socks:
  "next_sock st \<le> next_sock (snd (createSession st p env)) \<and>
   (k < next_sock st \<longrightarrow> listeners (snd (createSession st p env)) k = listeners st k)"
  using createSession_state [of st p env] create_begins_effect [of st p env]
    create_resumes_socks [of "create_begins st p env" p env k]
  by auto

lemma assign_effect:
  assumes "assign st s f = Inr st'"
  shows "listeners st' = listeners st \<and> next_sock st' = next_sock st \<and>
         map_of (activeConnections st') x =
           (if x = s then map_option f (map_of (activeConnections st) s)
            else map_of (activeConnections st) x)"
  using assms
  by (auto simp: assign_def update_conv' split: option.splits)

lemma connection_update_effect:
  assumes "connection_update st s u = Inr st'"
  shows "listeners st' = listeners st \<and> next_sock st' = next_sock st \<and>
         (x \<noteq> s \<longrightarrow> map_of (activeConnections st') x = map_of (activeConnections st) x) \<and>
         (case map_of (activeConnections st) s of
            None \<Rightarrow> map_of (activeConnections st') s = None
          | Some c \<Rightarrow> \<exists>c'. map_of (activeConnections st') s = Some c' \<and>
              status c' =
                (if upd_connection u = Some ''close''
                 then (if upd_statusCode u = Some loggedOut then Failed else status c)
                 else if upd_connection u = Some ''open'' then Connected else status c))"
proof -
  obtain st1 where q: "(if truthy (upd_qr u) then assign st s (\<lambda>c. c\<lparr>qr := upd_qr u\<rparr>)
            else Inr st) = Inr st1"
    using assms by (auto simp: connection_update_def split: sum.splits)
  have e1: "listeners st1 = listeners st \<and> next_sock st1 = next_sock st \<and>
       (\<forall>y. map_of (activeConnections st1) y =
           (if y = s \<and> truthy (upd_qr u) then map_option (\<lambda>c. c\<lparr>qr := upd_qr u\<rparr>) (map_of (activeConnections st) s)
            else map_of (activeConnections st) y))"
    using q assign_effect [of st s "\<lambda>c. c\<lparr>qr := upd_qr u\<rparr>" st1]
    by (auto split: if_splits)
  have r: "(if upd_connection u = Some ''close'' then
            (if upd_statusCode u = Some loggedOut then assign st1 s (\<lambda>c. c\<lparr>status := Failed\<rparr>)
             else Inr st1)
          else if upd_connection u = Some ''open'' then
            assign st1 s (\<lambda>c. c\<lparr>status := Connected\<rparr>)
          else Inr st1) = Inr st'"
    using assms unfolding connection_update_def q Let_def
    by (simp split del: if_split cong: if_cong)
  show ?thesis
  proof (cases "upd_connection u = Some ''close''")
    case True
    show ?thesis
    proof (cases "upd_statusCode u = Some loggedOut")
      case lo: True
      with True r have "assign st1 s (\<lambda>c. c\<lparr>status := Failed\<rparr>) = Inr st'" by simp
      from assign_effect [OF this] e1 True lo show ?thesis
        by (auto split: option.splits)
    next
      case False
      with True r have "st' = st1" by simp
      with e1 True False show ?thesis by (auto split: option.splits)
    qed
  next
    case nc: False
    show ?thesis
    proof (cases "upd_connection u = Some ''open''")
      case True
      with nc r have "assign st1 s (\<lambda>c. c\<lparr>status := Connected\<rparr>) = Inr st'" by simp
      from assign_effect [OF this] e1 True nc show ?thesis
        by (auto split: option.splits)
    next
      case False
      with nc r have "st' = st1" by simp
      with e1 nc False show ?thesis by (auto split: option.splits)
    qed
  qed
qed

lemma download_creds_effect:
  "activeConnections (snd (download_creds st s f)) = activeConnections st \<and>
   listeners (snd (download_creds st s f)) = listeners st \<and>
   next_sock (snd (download_creds st s f)) = next_sock st \<and>
   dirs (snd (download_creds st s f)) = dirs st"
  by (auto simp: download_creds_def split: option.splits entry.splits)

lemma fire_timer_shrinks:
  assumes "fire_timer st f = Inr st'"
  shows "(map_of (activeConnections st') s = None \<or>
          map_of (activeConnections st') s = map_of (activeConnections st) s) \<and>
         (listeners st' x = None \<or> listeners st' x = listeners st x) \<and>
         next_sock st' = next_sock st"
proof (cases "timers st")
  case Nil
  with assms show ?thesis by (simp add: fire_timer_def)
next
  case (Cons k rest)
  with assms have "cleanupSession (st\<lparr>timers := rest\<rparr>) k f = Inr st'"
    by (simp add: fire_timer_def)
  from cleanupSession_shrinks [OF this, of s x] show ?thesis by simp
qed

text \<open>What one step can do to the record of a session it does not create.\<close>

lemma step_record:
  assumes "step st a = Inr st'" and "created_id a \<noteq> Some sid"
    and "map_of (activeConnections st') sid = Some c'"
  shows "\<exists>c. map_of (activeConnections st) sid = Some c \<and>
           (status c' = status c \<or>
            (\<exists>k u. a = Event k u \<and> listeners st k = Some sid \<and>
               ((upd_connection u = Some ''open'' \<and> status c' = Connected) \<or>
                (logout_on k a \<and> status c' = Failed))))"
proof (cases a)
  case (Create p env)
  with assms createSession_other(1) [of env sid st p]
  have "map_of (activeConnections st) sid = Some c'" by simp
  then show ?thesis by simp
next
  case (CreateBegins p env)
  with assms create_begins_effect [of st p env]
  have "map_of (activeConnections st) sid = Some c'" by simp
  then show ?thesis by simp
next
  case (CreateResumes p env)
  with assms create_resumes_other(1) [of env sid st p]
  have "map_of (activeConnections st) sid = Some c'" by simp
  then show ?thesis by simp
next
  case (Persist k name content)
  with assms persist_effect [of st k name content]
  have "map_of (activeConnections st) sid = Some c'" by simp
  then show ?thesis by simp
next
  case (Event k u)
  show ?thesis
  proof (cases "listeners st k")
    case None
    with assms Event show ?thesis by (simp add: deliver_def)
  next
    case (Some s)
    with assms Event have cu: "connection_update st s u = Inr st'" by (simp add: deliver_def)
    show ?thesis
    proof (cases "s = sid")
      case False
      with connection_update_effect [OF cu, of sid] assms(3)
      have "map_of (activeConnections st) sid = Some c'" by simp
      then show ?thesis by simp
    next
      case True
      with connection_update_effect [OF cu, of sid] assms(3)
      obtain c where c: "map_of (activeConnections st) sid = Some c"
        and st: "status c' =
                (if upd_connection u = Some ''close''
                 then (if upd_statusCode u = Some loggedOut then Failed else status c)
                 else if upd_connection u = Some ''open'' then Connected else status c)"
        by (cases "map_of (activeConnections st) sid") auto
      from st Event Some True have
        "status c' = status c \<or>
            (\<exists>k u. a = Event k u \<and> listeners st k = Some sid \<and>
               ((upd_connection u = Some ''open'' \<and> status c' = Connected) \<or>
                (logout_on k a \<and> status c' = Failed)))"
        by (auto split: if_splits)
      with c show ?thesis by simp
    qed
  qed
next
  case (CheckStatus s)
  with assms show ?thesis by simp
next
  case (GetQr s)
  with assms show ?thesis by simp
next
  case (Download s f)
  with assms download_creds_effect [of st s f] show ?thesis by simp
next
  case (TimerFires f)
  with assms fire_timer_shrinks [of st f st' sid]
  have "map_of (activeConnections st') sid = None \<or>
        map_of (activeConnections st') sid = map_of (activeConnections st) sid" by simp
  with assms(3) have "map_of (activeConnections st) sid = Some c'"
    by (metis option.distinct(1))
  then show ?thesis by simp
next
  case (Sweep t rmf)
  with assms sweep_keys_shrinks [of st t rmf "keys st" st' sid]
  have "map_of (activeConnections st') sid = None \<or>
        map_of (activeConnections st') sid = map_of (activeConnections st) sid"
    by (simp add: sweep_def)
  with assms(3) have "map_of (activeConnections st) sid = Some c'"
    by (metis option.distinct(1))
  then show ?thesis by simp
qed

lemma step_listeners:
  assumes "step st a = Inr st'" and "created_id a \<noteq> Some sid"
    and "listeners st' k = Some sid"
  shows "listeners st k = Some sid"
proof (cases a)
  case (Create p env)
  with assms createSession_other(2) [of env sid st p k] show ?thesis by auto
next
  case (CreateBegins p env)
  with assms create_begins_effect [of st p env] show ?thesis by simp
next
  case (CreateResumes p env)
  with assms create_resumes_other(2) [of env sid st p k] show ?thesis by auto
next
  case (Persist j name content)
  with assms persist_effect [of st j name content] show ?thesis by simp
next
  case (Event j u)
  show ?thesis
  proof (cases "listeners st j")
    case None
    with assms Event show ?thesis by (simp add: deliver_def)
  next
    case (Some s)
    with assms Event have cu: "connection_update st s u = Inr st'" by (simp add: deliver_def)
    from connection_update_effect [OF cu, of sid] assms(3) show ?thesis by simp
  qed
next
  case (CheckStatus s)
  with assms show ?thesis by simp
next
  case (GetQr s)
  with assms show ?thesis by simp
next
  case (Download s f)
  with assms download_creds_effect [of st s f] show ?thesis by simp
next
  case (TimerFires f)
  with assms fire_timer_shrinks [of st f st' sid k] show ?thesis by auto
next
  case (Sweep t rmf)
  with assms sweep_keys_shrinks [of st t rmf "keys st" st' sid k] show ?thesis
    by (auto simp: sweep_def)
qed

lemma step_socks:
  assumes "step st a = Inr st'" and "k < next_sock st" and "listeners st k = None"
  shows "listeners st' k = None \<and> next_sock st \<le> next_sock st'"
proof (cases a)
  case (Create p env)
  with assms createSession_socks [of st p env k] show ?thesis by auto
next
  case (CreateBegins p env)
  with assms create_begins_effect [of st p env] show ?thesis by simp
next
  case (CreateResumes p env)
  with assms create_resumes_socks [of st p env k] show ?thesis by auto
next
  case (Persist j name content)
  with assms persist_effect [of st j name content] show ?thesis by simp
next
  case (Event j u)
  show ?thesis
  proof (cases "listeners st j")
    case None
    with assms Event show ?thesis by (simp add: deliver_def)
  next
    case (Some s)
    with assms Event have cu: "connection_update st s u = Inr st'" by (simp add: deliver_def)
    from connection_update_effect [OF cu, of s] assms show ?thesis by simp
  qed
next
  case (CheckStatus s)
  with assms show ?thesis by simp
next
  case (GetQr s)
  with assms show ?thesis by simp
next
  case (Download s f)
  with assms download_creds_effect [of st s f] show ?thesis by simp
next
  case (TimerFires f)
  with assms fire_timer_shrinks [of st f st' _ k] show ?thesis by auto
next
  case (Sweep t rmf)
  with assms sweep_keys_shrinks [of st t rmf "keys st" st' _ k] show ?thesis
    by (auto simp: sweep_def)
qed

lemma run_socks:
  "run st acts = Inr st' \<Longrightarrow> k < next_sock st \<Longrightarrow> listeners st k = None \<Longrightarrow>
     listeners st' k = None"
proof (induction acts arbitrary: st)
  case Nil
  then show ?case by simp
next
  case (Cons a acts)
  from Cons.prems obtain st1 where s: "step st a = Inr st1" and r: "run st1 acts = Inr st'"
    by (auto split: sum.splits)
  from step_socks [OF s Cons.prems(2,3)] Cons.prems(2) have "listeners st1 k = None" "k < next_sock st1"
    by auto
  with Cons.IH [OF r] show ?case by simp
qed

lemma run_terminal:
  "run st acts = Inr st' \<Longrightarrow> \<forall>a\<in>set acts. created_id a \<noteq> Some sid \<Longrightarrow>
   \<forall>c. map_of (activeConnections st) sid = Some c \<longrightarrow> status c \<noteq> Connecting \<Longrightarrow>
   map_of (activeConnections st') sid = Some c' \<Longrightarrow> status c' \<noteq> Connecting"
proof (induction acts arbitrary: st)
  case Nil
  then show ?case by simp
next
  case (Cons a acts)
  from Cons.prems obtain st1 where s: "step st a = Inr st1" and r: "run st1 acts = Inr st'"
    by (auto split: sum.splits)
  from Cons.prems have na: "created_id a \<noteq> Some sid" by simp
  have "\<forall>c. map_of (activeConnections st1) sid = Some c \<longrightarrow> status c \<noteq> Connecting"
  proof (intro allI impI)
    fix c1 assume c1: "map_of (activeConnections st1) sid = Some c1"
    from step_record [OF s na c1] Cons.prems(3) show "status c1 \<noteq> Connecting" by auto
  qed
  from Cons.IH [OF r _ this Cons.prems(4)] Cons.prems(2) show ?case by simp
qed

lemma run_latch:
  "run st acts = Inr st' \<Longrightarrow>
   \<forall>a\<in>set acts. created_id a \<noteq> Some sid \<and> \<not> logout_on sk a \<Longrightarrow>
   \<forall>k. listeners st k = Some sid \<longrightarrow> k = sk \<Longrightarrow>
   \<forall>c. map_of (activeConnections st) sid = Some c \<longrightarrow> status c = Connected \<Longrightarrow>
   map_of (activeConnections st') sid = Some c' \<Longrightarrow> status c' = Connected"
proof (induction acts arbitrary: st)
  case Nil
  then show ?case by simp
next
  case (Cons a acts)
  from Cons.prems obtain st1 where s: "step st a = Inr st1" and r: "run st1 acts = Inr st'"
    by (auto split: sum.splits)
  from Cons.prems have na: "created_id a \<noteq> Some sid" and nl: "\<not> logout_on sk a" by simp_all
  have l1: "\<forall>k. listeners st1 k = Some sid \<longrightarrow> k = sk"
    using step_listeners [OF s na] Cons.prems(3) by blast
  have "\<forall>c. map_of (activeConnections st1) sid = Some c \<longrightarrow> status c = Connected"
  proof (intro allI impI)
    fix c1 assume c1: "map_of (activeConnections st1) sid = Some c1"
    from step_record [OF s na c1] Cons.prems(3,4) nl show "status c1 = Connected" by auto
  qed
  from Cons.IH [OF r _ l1 this Cons.prems(5)] Cons.prems(2) show ?case by simp
qed

subsection \<open>No listener outlives its record\<close>

text \<open>
  With identifiers that are fresh, every state the server reaches from its start is
  consistent, so the listener never meets a missing record and no callback raises.
\<close>

lemma consistent_init: "consistent init"
  by (simp add: consistent_def init_def)

lemma connection_update_total:
  assumes "map_of (activeConnections st) s = Some c"
  shows "\<exists>st'. connection_update st s u = Inr st'"
  using assms
  by (auto simp: connection_update_def assign_def update_conv' Let_def split: sum.splits)

lemma consistent_deliver_total:
  assumes "consistent st"
  shows "\<exists>st'. deliver st k u = Inr st'"
proof (cases "listeners st k")
  case None
  then show ?thesis by (simp add: deliver_def)
next
  case (Some s)
  with assms obtain c where "map_of (activeConnections st) s = Some c"
    by (auto simp: consistent_def)
  from connection_update_total [OF this] Some show ?thesis by (simp add: deliver_def)
qed

lemma fire_timer_total: "\<exists>st'. fire_timer st f = Inr st'"
  using cleanupSession_total by (auto simp: fire_timer_def split: list.splits)

lemma consistent_step_total:
  assumes "consistent st"
  shows "\<exists>st'. step st a = Inr st'"
  using consistent_deliver_total [OF assms] fire_timer_total sweep_total
  by (cases a) auto

lemma assign_sock:
  assumes "assign st s f = Inr st'" and "\<And>c. sock (f c) = sock c"
  shows "listeners st' = listeners st \<and> next_sock st' = next_sock st \<and>
         map_option sock (map_of (activeConnections st') x) =
           map_option sock (map_of (activeConnections st) x)"
  using assms
  by (auto simp: assign_def update_conv' split: option.splits)

lemma connection_update_sock:
  assumes "connection_update st s u = Inr st'"
  shows "map_option sock (map_of (activeConnections st') x) =
           map_option sock (map_of (activeConnections st) x)"
proof -
  obtain st1 where q: "(if truthy (upd_qr u) then assign st s (\<lambda>c. c\<lparr>qr := upd_qr u\<rparr>)
            else Inr st) = Inr st1"
    using assms by (auto simp: connection_update_def split: sum.splits)
  then have e1: "map_option sock (map_of (activeConnections st1) x) =
           map_option sock (map_of (activeConnections st) x)"
    using assign_sock [of st s "\<lambda>c. c\<lparr>qr := upd_qr u\<rparr>" st1 x]
    by (auto split: if_splits)
  have r: "(if upd_connection u = Some ''close'' then
            (if upd_statusCode u = Some loggedOut then assign st1 s (\<lambda>c. c\<lparr>status := Failed\<rparr>)
             else Inr st1)
          else if upd_connection u = Some ''open'' then
            assign st1 s (\<lambda>c. c\<lparr>status := Connected\<rparr>)
          else Inr st1) = Inr st'"
    using assms unfolding connection_update_def q Let_def
    by (simp split del: if_split cong: if_cong)
  then have "st' = st1 \<or> assign st1 s (\<lambda>c. c\<lparr>status := Failed\<rparr>) = Inr st' \<or>
      assign st1 s (\<lambda>c. c\<lparr>status := Connected\<rparr>) = Inr st'"
    by (auto split: if_splits)
  with e1 assign_sock [of st1 s "\<lambda>c. c\<lparr>status := Failed\<rparr>" st' x]
    assign_sock [of st1 s "\<lambda>c. c\<lparr>status := Connected\<rparr>" st' x]
  show ?thesis by auto
qed

lemma cleanupSession_ends_socket:
  assumes "cleanupSession st k f = Inr st'" and "map_of (activeConnections st) k = Some c"
  shows "listeners st' (sock c) = None"
  using assms by (auto simp: cleanup_defs split: if_splits sum.splits)

lemma consistent_cleanupSession:
  assumes "consistent st" and "cleanupSession st k f = Inr st'"
  shows "consistent st'"
  unfolding consistent_def
proof (intro allI impI)
  fix x s assume l: "listeners st' x = Some s"
  with cleanupSession_shrinks [OF assms(2), of s x]
  have l0: "listeners st x = Some s" and n: "next_sock st' = next_sock st" by auto
  with assms(1) obtain c where c: "map_of (activeConnections st) s = Some c" "sock c = x"
    and lt: "x < next_sock st"
    by (auto simp: consistent_def)
  have "s \<noteq> k"
  proof
    assume "s = k"
    with c cleanupSession_ends_socket [OF assms(2), of c] l show False by simp
  qed
  with cleanupSession_other(1) [OF assms(2), of s] c n lt
  show "x < next_sock st' \<and> (\<exists>c. map_of (activeConnections st') s = Some c \<and> sock c = x)"
    by simp
qed

lemma consistent_sweep_keys:
  "consistent st \<Longrightarrow> sweep_keys st t rmf ks = Inr st' \<Longrightarrow> consistent st'"
proof (induction ks arbitrary: st)
  case Nil
  then show ?case by simp
next
  case (Cons k ks)
  show ?case
  proof (cases "lookup st k")
    case Absent
    with Cons.prems show ?thesis by simp
  next
    case Inherited
    with Cons show ?thesis by simp
  next
    case (Own c)
    show ?thesis
    proof (cases "ageInMinutes t c > 120")
      case False
      with Cons Own show ?thesis by simp
    next
      case True
      obtain st1 where st1: "cleanupSession st k (rmf k) = Inr st1"
        using cleanupSession_total by blast
      with Cons.prems Own True have "sweep_keys st1 t rmf ks = Inr st'" by simp
      from Cons.IH [OF consistent_cleanupSession [OF Cons.prems(1) st1] this]
      show ?thesis .
    qed
  qed
qed

lemma consistent_create_begins:
  "consistent st \<Longrightarrow> consistent (create_begins st p env)"
  using create_begins_effect [of st p env] by (simp add: consistent_def)

lemma consistent_persist:
  "consistent st \<Longrightarrow> consistent (persist st k name content)"
  using persist_effect [of st k name content] by (simp add: consistent_def)

lemma consistent_create_resumes:
  assumes "consistent st" and "map_of (activeConnections st) (env_uuid env) = None"
  shows "consistent (create_resumes st p env)"
  using create_resumes_effect [of st p env]
proof
  assume "listeners (create_resumes st p env) = listeners st \<and>
     next_sock (create_resumes st p env) = next_sock st \<and>
     map_of (activeConnections (create_resumes st p env)) = map_of (activeConnections st)"
  with assms(1) show ?thesis by (simp add: consistent_def)
next
  assume "\<exists>phone.
     listeners (create_resumes st p env) = (listeners st)(next_sock st \<mapsto> env_uuid env) \<and>
     next_sock (create_resumes st p env) = Suc (next_sock st) \<and>
     map_of (activeConnections (create_resumes st p env)) =
       (map_of (activeConnections st))
         (env_uuid env \<mapsto> \<lparr>sock = next_sock st, phoneNumber = phone, status = Connecting,
                            createdAt = env_now env, qr = None\<rparr>)"
  then obtain phone where e:
     "listeners (create_resumes st p env) = (listeners st)(next_sock st \<mapsto> env_uuid env)"
     "next_sock (create_resumes st p env) = Suc (next_sock st)"
     "map_of (activeConnections (create_resumes st p env)) =
       (map_of (activeConnections st))
         (env_uuid env \<mapsto> \<lparr>sock = next_sock st, phoneNumber = phone, status = Connecting,
                            createdAt = env_now env, qr = None\<rparr>)"
    by blast
  show ?thesis
    unfolding consistent_def
  proof (intro allI impI)
    fix k s assume l: "listeners (create_resumes st p env) k = Some s"
    show "k < next_sock (create_resumes st p env) \<and>
          (\<exists>c. map_of (activeConnections (create_resumes st p env)) s = Some c \<and> sock c = k)"
    proof (cases "k = next_sock st")
      case True
      with l e show ?thesis by simp
    next
      case False
      with l e have l0: "listeners st k = Some s" by simp
      with assms(1) obtain c where c: "k < next_sock st"
        "map_of (activeConnections st) s = Some c" "sock c = k"
        by (auto simp: consistent_def)
      with assms(2) have "s \<noteq> env_uuid env" by auto
      with c e show ?thesis by simp
    qed
  qed
qed

lemma consistent_createSession:
  assumes "consistent st" and "map_of (activeConnections st) (env_uuid env) = None"
  shows "consistent (snd (createSession st p env))"
proof -
  from assms(2) create_begins_effect [of st p env]
  have "map_of (activeConnections (create_begins st p env)) (env_uuid env) = None" by simp
  from consistent_create_resumes [OF consistent_create_begins [OF assms(1)] this]
    createSession_state [of st p env] assms(1)
  show ?thesis by auto
qed

lemma consistent_step:
  assumes "consistent st" and "fresh st a" and "step st a = Inr st'"
  shows "consistent st'"
proof (cases a)
  case (Create p env)
  with assms consistent_createSession [of st env p] show ?thesis by auto
next
  case (CreateBegins p env)
  with assms consistent_create_begins [of st p env] show ?thesis by auto
next
  case (CreateResumes p env)
  with assms consistent_create_resumes [of st env p] show ?thesis by auto
next
  case (Persist j name content)
  with assms consistent_persist [of st j name content] show ?thesis by auto
next
  case (Event k u)
  show ?thesis
  proof (cases "listeners st k")
    case None
    with assms Event show ?thesis by (simp add: deliver_def)
  next
    case (Some s)
    with assms Event have cu: "connection_update st s u = Inr st'" by (simp add: deliver_def)
    show ?thesis
      unfolding consistent_def
    proof (intro allI impI)
      fix x r assume "listeners st' x = Some r"
      with connection_update_effect [OF cu, of r] have "listeners st x = Some r"
        and n: "next_sock st' = next_sock st" by simp_all
      with assms(1) obtain c where "map_of (activeConnections st) r = Some c" "sock c = x"
        and "x < next_sock st"
        by (auto simp: consistent_def)
      with connection_update_sock [OF cu, of r] n
      show "x < next_sock st' \<and> (\<exists>c. map_of (activeConnections st') r = Some c \<and> sock c = x)"
        by auto
    qed
  qed
next
  case (CheckStatus s)
  with assms show ?thesis by simp
next
  case (GetQr s)
  with assms show ?thesis by simp
next
  case (Download s f)
  with assms download_creds_effect [of st s f] show ?thesis
    by (simp add: consistent_def)
next
  case (TimerFires f)
  show ?thesis
  proof (cases "timers st")
    case Nil
    with assms TimerFires show ?thesis by (simp add: fire_timer_def)
  next
    case (Cons k rest)
    with assms TimerFires have "cleanupSession (st\<lparr>timers := rest\<rparr>) k f = Inr st'"
      by (simp add: fire_timer_def)
    moreover from assms(1) have "consistent (st\<lparr>timers := rest\<rparr>)"
      by (simp add: consistent_def)
    ultimately show ?thesis by (rule consistent_cleanupSession [rotated])
  qed
next
  case (Sweep t rmf)
  with assms consistent_sweep_keys [of st t rmf "keys st" st'] show ?thesis
    by (simp add: sweep_def)
qed

lemma consistent_run:
  "consistent st \<Longrightarrow> fresh_run st acts \<Longrightarrow>
     \<exists>st'. run st acts = Inr st' \<and> consistent st'"
proof (induction acts arbitrary: st)
  case Nil
  then show ?case by simp
next
  case (Cons a acts)
  from consistent_step_total [OF Cons.prems(1), of a] obtain st1 where
    s: "step st a = Inr st1" by blast
  with Cons.prems have "consistent st1" "fresh_run st1 acts"
    using consistent_step [of st a st1] by auto
  from Cons.IH [OF this] s show ?case by simp
qed

lemma no_fault_from_init:
  assumes "fresh_run init acts"
  shows "\<exists>st'. run init acts = Inr st' \<and> (\<forall>k u. \<exists>st''. deliver st' k u = Inr st'')"
  using consistent_run [OF consistent_init assms] consistent_deliver_total by blast

subsection \<open>The status along a run\<close>

text \<open>
  C7. Along every run of requests, provider events, timers and sweeps in which the
  identifier of a session is not issued again, a session whose status is \<open>connected\<close> or
  \<open>failed\<close> never has the status \<open>connecting\<close> again, as long as its record exists.
\<close>

theorem status_never_back_to_connecting:
  assumes "map_of (activeConnections st) sid = Some c" and "status c \<noteq> Connecting"
    and "run st acts = Inr st'"
    and "\<forall>a\<in>set acts. created_id a \<noteq> Some sid"
    and "map_of (activeConnections st') sid = Some c'"
  shows "status c' \<noteq> Connecting"
  using run_terminal [OF assms(3,4) _ assms(5)] assms(1,2) by simp

theorem status_never_back_to_connecting_witness:
  "map_of (activeConnections st_open) ''abc'' = Some conn_open \<and> status conn_open \<noteq> Connecting \<and>
   (\<exists>st' c'. run st_open [Event 0 ev_qr, Create (Some ''+15551234567'') env_other, Download ''abc'' False, Event 0 ev_logout] = Inr st' \<and>
      map_of (activeConnections st') ''abc'' = Some c' \<and> status c' = Failed)"
proof -
  have a: "map_of (activeConnections st_open) ''abc'' = Some conn_open"
    and b: "status conn_open \<noteq> Connecting"
    by (simp_all add: st_open_def conn_open_def conn_new_def)
  have d: "\<forall>a\<in>set [Event 0 ev_qr, Create (Some ''+15551234567'') env_other, Download ''abc'' False, Event 0 ev_logout]. created_id a \<noteq> Some ''abc''"
    by (simp add: env_other_def)
  obtain st' c' where r: "run st_open [Event 0 ev_qr, Create (Some ''+15551234567'') env_other, Download ''abc'' False, Event 0 ev_logout] = Inr st'"
    and e: "map_of (activeConnections st') ''abc'' = Some c'" and f: "status c' = Failed"
    by (simp add: deliver_def connection_update_def assign_def create_defs digits_def
        download_creds_def lookup_def file_of_def truthy_def loggedOut_def
        st_open_def conn_open_def conn_new_def ev_qr_def ev_logout_def env_other_def env_abc_def)
  from status_never_back_to_connecting [OF a b r d e] a b r e f show ?thesis by blast
qed

text \<open>
  C2 (as amended). Once an \<open>open\<close> event was delivered to the listener of a session,
  the status route answers \<open>connected\<close> for it after every later run in which no close
  event with the logged-out code arrives on the session's socket (and the identifier is
  not issued again), as long as the record exists: new scannable codes, closes for other
  reasons, requests, timers and sweeps do not change the status.
\<close>

theorem connected_latch_without_logout:
  assumes "listeners st0 sk = Some sid"
    and "\<forall>k. listeners st0 k = Some sid \<longrightarrow> k = sk"
    and "upd_connection u = Some ''open''"
    and "deliver st0 sk u = Inr st"
    and "run st acts = Inr st'"
    and "\<forall>a\<in>set acts. created_id a \<noteq> Some sid \<and> \<not> logout_on sk a"
    and "map_of (activeConnections st') sid = Some c'"
  shows "check_status st' sid = (200, StatusBody Connected (or_null (qr c')))"
proof -
  from assms(1,4) have cu: "connection_update st0 sid u = Inr st"
    by (simp add: deliver_def)
  have l: "\<forall>k. listeners st k = Some sid \<longrightarrow> k = sk"
    using connection_update_effect [OF cu, of sid] assms(2) by simp
  have "\<forall>c. map_of (activeConnections st) sid = Some c \<longrightarrow> status c = Connected"
    using connection_update_effect [OF cu, of sid] assms(3)
    by (auto split: option.splits)
  from run_latch [OF assms(5,6) l this assms(7)] assms(7) show ?thesis
    by (simp add: check_status_def lookup_def)
qed

theorem connected_latch_without_logout_witness:
  "listeners st_new 0 = Some ''abc'' \<and> upd_connection ev_open = Some ''open'' \<and>
   (\<exists>st st'. deliver st_new 0 ev_open = Inr st \<and>
      run st [Event 0 ev_qr, CheckStatus ''abc'', Create (Some ''+15551234567'') env_other, Sweep 3600000 (\<lambda>s. False)] = Inr st' \<and>
      check_status st' ''abc'' = (200, StatusBody Connected (Some ''2@xyz'')))"
proof -
  let ?acts = "[Event 0 ev_qr, CheckStatus ''abc'', Create (Some ''+15551234567'') env_other, Sweep 3600000 (\<lambda>s. False)]"
  have a: "listeners st_new 0 = Some ''abc''"
    and b: "\<forall>k. listeners st_new k = Some ''abc'' \<longrightarrow> k = 0"
    and c: "upd_connection ev_open = Some ''open''"
    by (simp_all add: st_new_def ev_open_def)
  have d: "deliver st_new 0 ev_open = Inr (st_new\<lparr>activeConnections := [(''abc'', conn_open)]\<rparr>)"
    by (simp add: deliver_def connection_update_def assign_def truthy_def
        st_new_def conn_open_def conn_new_def ev_open_def)
  have e: "\<forall>a\<in>set ?acts. created_id a \<noteq> Some ''abc'' \<and> \<not> logout_on 0 a"
    by (simp add: env_other_def ev_qr_def)
  obtain st' c' where r: "run (st_new\<lparr>activeConnections := [(''abc'', conn_open)]\<rparr>) ?acts = Inr st'"
    and f: "map_of (activeConnections st') ''abc'' = Some c'" and g: "qr c' = Some ''2@xyz''"
    by (simp add: deliver_def connection_update_def assign_def create_defs digits_def
        sweep_def keys_def lookup_def ageInMinutes_def truthy_def
        st_new_def conn_open_def conn_new_def ev_qr_def env_other_def env_abc_def)
  from connected_latch_without_logout [OF a b c d r e f] g have "check_status st' ''abc'' = (200, StatusBody Connected (Some ''2@xyz''))"
    by (simp add: or_null_def truthy_def)
  with a c d r show ?thesis by blast
qed

theorem connected_reverts_on_logout_counterexample:
  "run st_new [Event 0 ev_open] = Inr (st_new\<lparr>activeConnections := [(''abc'', conn_open)]\<rparr>) \<and>
   check_status (st_new\<lparr>activeConnections := [(''abc'', conn_open)]\<rparr>) ''abc'' = (200, StatusBody Connected None) \<and>
   run st_new [Event 0 ev_open, Event 0 ev_logout] =
     Inr (st_new\<lparr>activeConnections := [(''abc'', conn_new\<lparr>status := Failed\<rparr>)]\<rparr>) \<and>
   check_status (st_new\<lparr>activeConnections := [(''abc'', conn_new\<lparr>status := Failed\<rparr>)]\<rparr>) ''abc'' =
     (200, StatusBody Failed None)"
  by (simp add: deliver_def connection_update_def assign_def check_status_def lookup_def truthy_def or_null_def
      loggedOut_def st_new_def conn_open_def conn_new_def ev_open_def ev_logout_def)

subsection \<open>Events after a cleanup\<close>

text \<open>
  C3. The cleanup of a registered session ends the session's socket first: after that
  statement the socket has no listener while the record is still there, and the record is
  deleted only later. Whatever the removal of the directory does, the listener is gone
  when the cleanup returns and stays gone along every later run, so an event that the
  provider emits on that socket afterwards runs no callback: the state is returned as it
  was and no error is raised. (That ending a socket unregisters its listener is the
  spec's account of the provider.)
\<close>

theorem cleanupSession_stops_listener_first:
  assumes "map_of (activeConnections st) sid = Some c" and "sock c < next_sock st"
    and "cleanupSession st sid rm_fails = Inr st1"
    and "run st1 acts = Inr st2"
  shows "listeners (close_connection st sid) (sock c) = None \<and>
         map_of (activeConnections (close_connection st sid)) sid = Some c \<and>
         listeners st1 (sock c) = None \<and>
         listeners st2 (sock c) = None \<and>
         deliver st2 (sock c) u = Inr st2"
proof -
  have a: "listeners (close_connection st sid) (sock c) = None \<and>
         map_of (activeConnections (close_connection st sid)) sid = Some c"
    using assms(1) by (simp add: close_connection_def lookup_def sock_end_def)
  have b: "listeners st1 (sock c) = None \<and> next_sock st1 = next_sock st"
    using assms(1,3)
    by (auto simp: cleanup_defs split: if_splits sum.splits)
  with run_socks [OF assms(4), of "sock c"] assms(2)
  have "listeners st2 (sock c) = None" by simp
  with a b show ?thesis by (simp add: deliver_def)
qed

theorem cleanupSession_stops_listener_first_witness:
  "map_of (activeConnections st_open) ''abc'' = Some conn_open \<and> sock conn_open < next_sock st_open \<and>
   (\<exists>st1 st2. cleanupSession st_open ''abc'' False = Inr st1 \<and>
      run st1 [CheckStatus ''abc'', Create (Some ''+15551234567'') env_other, Event 0 ev_qr] = Inr st2 \<and>
      map_of (activeConnections st2) ''abc'' = None \<and>
      deliver st2 0 ev_open = Inr st2)"
proof -
  let ?acts = "[CheckStatus ''abc'', Create (Some ''+15551234567'') env_other, Event 0 ev_qr]"
  have a: "map_of (activeConnections st_open) ''abc'' = Some conn_open"
    and b: "sock conn_open < next_sock st_open" and s: "sock conn_open = 0"
    by (simp_all add: st_open_def conn_open_def conn_new_def)
  have c: "cleanupSession st_open ''abc'' False = Inr (init\<lparr>next_sock := 1\<rparr>)"
    by (simp add: cleanup_defs init_def st_open_def conn_open_def conn_new_def)
  obtain st2 where r: "run (init\<lparr>next_sock := 1\<rparr>) ?acts = Inr st2"
    and g: "map_of (activeConnections st2) ''abc'' = None"
    by (simp add: deliver_def create_defs digits_def init_def env_other_def env_abc_def)
  from cleanupSession_stops_listener_first [OF a b c r, of ev_open] a b c r g s show ?thesis by auto
qed
end
